theory Spec2Isabelle
  imports Main "HOL-Library.Word" "HOL-Library.Sublist"
begin

section \<open>Data model\<close>

text \<open>
  The program is \<^verbatim>\<open>scripts/string_to_hex_converter.py\<close>. A Python \<^verbatim>\<open>str\<close> is a
  sequence of Unicode code points, a \<^verbatim>\<open>bytes\<close> object a sequence of integers in
  \<open>0..255\<close>, and a Python \<^verbatim>\<open>int\<close> is unbounded. The text that \<^verbatim>\<open>bytes.hex()\<close>
  produces is a \<^verbatim>\<open>str\<close> over the sixteen ASCII hex digits, so it is kept as a
  HOL \<open>string\<close>; the input text keeps its code points.

  The interpreter is a 64-bit CPython: the count of a sequence repetition has to fit
  the index type \<^verbatim>\<open>Py_ssize_t\<close>, that is \<open>- 2 ^ 63 \<le> n < 2 ^ 63\<close>, and
  \<^verbatim>\<open>'0' * n\<close> raises \<^verbatim>\<open>OverflowError\<close> for any other \<open>n\<close>. That check is part of
  the model. Running out of memory for a count that does fit (\<^verbatim>\<open>MemoryError\<close>) is
  not: strings are unbounded lists.
\<close>

type_synonym codepoint = nat
type_synonym pystr = "codepoint list"
type_synonym byte = "8 word"
type_synonym pybytes = "byte list"

definition is_codepoint :: "codepoint \<Rightarrow> bool" where
  "is_codepoint c = (c < 0x110000)"

text \<open>A value of Python's type \<^verbatim>\<open>str\<close>: every element is a code point.\<close>

definition is_str :: "pystr \<Rightarrow> bool" where
  "is_str s = list_all is_codepoint s"

definition is_surrogate :: "codepoint \<Rightarrow> bool" where
  "is_surrogate c = (0xD800 \<le> c \<and> c \<le> 0xDFFF)"

text \<open>
  The exceptions the conversion can raise: \<^verbatim>\<open>UnicodeEncodeError\<close>, with the
  position of the first code point that UTF-8 cannot encode and that code point, and
  \<^verbatim>\<open>OverflowError\<close>, when the number of padding characters asked for does not
  fit the index type.
\<close>

datatype py_error = UnicodeEncodeError nat codepoint | OverflowError

definition ascii :: "string \<Rightarrow> pystr" where
  "ascii cs = map of_char cs"

section \<open>The built-in operations the script calls\<close>

subsection \<open>\<^verbatim>\<open>str.encode()\<close>: UTF-8, strict error handling\<close>

definition encode_codepoint :: "codepoint \<Rightarrow> pybytes" where
  "encode_codepoint c =
     (if c < 0x80 then [of_nat c]
      else if c < 0x800 then
        [of_nat (0xC0 + c div 64), of_nat (0x80 + c mod 64)]
      else if c < 0x10000 then
        [of_nat (0xE0 + c div 4096), of_nat (0x80 + c div 64 mod 64),
         of_nat (0x80 + c mod 64)]
      else
        [of_nat (0xF0 + c div 262144), of_nat (0x80 + c div 4096 mod 64),
         of_nat (0x80 + c div 64 mod 64), of_nat (0x80 + c mod 64)])"

fun encode_from :: "nat \<Rightarrow> pystr \<Rightarrow> py_error + pybytes" where
  "encode_from pos [] = Inr []"
| "encode_from pos (c # cs) =
     (if is_surrogate c then Inl (UnicodeEncodeError pos c)
      else (case encode_from (Suc pos) cs of
              Inl e \<Rightarrow> Inl e
            | Inr bs \<Rightarrow> Inr (encode_codepoint c @ bs)))"

definition encode :: "pystr \<Rightarrow> py_error + pybytes" where
  "encode s = encode_from 0 s"

subsection \<open>\<^verbatim>\<open>bytes.hex()\<close>: two lowercase hex digits for each byte\<close>

definition hexdigit :: "nat \<Rightarrow> char" where
  "hexdigit n = ''0123456789abcdef'' ! n"

definition hex_byte :: "byte \<Rightarrow> string" where
  "hex_byte b = [hexdigit (unat b div 16), hexdigit (unat b mod 16)]"

definition hex :: "pybytes \<Rightarrow> string" where
  "hex bs = concat (map hex_byte bs)"

subsection \<open>\<^verbatim>\<open>str.upper()\<close> on ASCII text\<close>

text \<open>
  \<^verbatim>\<open>str.upper()\<close> is only ever applied to the output of \<^verbatim>\<open>bytes.hex()\<close>. On ASCII
  characters it maps \<open>a..z\<close> to \<open>A..Z\<close> and leaves every other character as it is;
  that is what is modelled (characters from 128 on never occur in a hex string, see
  \<open>upper_hex_ok\<close> below).
\<close>

definition upper_char :: "char \<Rightarrow> char" where
  "upper_char c =
     (if (97::nat) \<le> of_char c \<and> of_char c \<le> (122::nat)
      then char_of (of_char c - (32::nat)) else c)"

definition upper :: "string \<Rightarrow> string" where
  "upper s = map upper_char s"

subsection \<open>Sequence repetition \<^verbatim>\<open>s * n\<close>\<close>

text \<open>
  The count is first converted to the index type; a count outside
  \<open>- 2 ^ 63 \<le> n < 2 ^ 63\<close> raises \<^verbatim>\<open>OverflowError\<close> (``cannot fit 'int' into an
  index-sized integer''), on the negative side too. A count in range that is zero or
  negative gives the empty string.
\<close>

definition index_sized :: "int \<Rightarrow> bool" where
  "index_sized n = (- (2 ^ 63) \<le> n \<and> n < 2 ^ 63)"

definition str_mul :: "'a list \<Rightarrow> int \<Rightarrow> py_error + 'a list" where
  "str_mul s n =
     (if \<not> index_sized n then Inl OverflowError
      else if n \<le> 0 then Inr []
      else Inr (concat (replicate (nat n) s)))"

subsection \<open>\<^verbatim>\<open>str(n)\<close> for an integer: decimal digits, a minus sign when negative\<close>

fun nat_digits :: "nat \<Rightarrow> string" where
  "nat_digits n =
     (if n < 10 then [char_of (48 + n)]
      else nat_digits (n div 10) @ [char_of (48 + n mod 10)])"

definition str_of_int :: "int \<Rightarrow> string" where
  "str_of_int i = (if i < 0 then CHR ''-'' # nat_digits (nat (- i)) else nat_digits (nat i))"

section \<open>The conversion function\<close>

text \<open>
  \<^verbatim>\<open>
  def string_to_hex(input_string, padding=40, uppercase=True):
      hex_string = input_string.encode().hex()
      if uppercase:
          hex_string = hex_string.upper()
      padded_hex = f"{hex_string}{'0' * (padding - len(hex_string))}"
      return padded_hex
  \<close>
\<close>

definition string_to_hex :: "pystr \<Rightarrow> int \<Rightarrow> bool \<Rightarrow> py_error + string" where
  "string_to_hex input_string padding uppercase =
     (case encode input_string of
        Inl e \<Rightarrow> Inl e
      | Inr bs \<Rightarrow>
          (let hex_string = hex bs;
               hex_string = (if uppercase then upper hex_string else hex_string)
           in (case str_mul ''0'' (padding - int (length hex_string)) of
                 Inl e \<Rightarrow> Inl e
               | Inr zeros \<Rightarrow>
                   (let padded_hex = hex_string @ zeros in Inr padded_hex))))"

section \<open>The command-line shell\<close>

text \<open>
  The parsed arguments of \<^verbatim>\<open>main\<close>: the positional \<^verbatim>\<open>string\<close>, \<^verbatim>\<open>--padding\<close>
  (default 40), \<^verbatim>\<open>--no-uppercase\<close> (default off) and \<^verbatim>\<open>--format\<close> (default
  \<^verbatim>\<open>simple\<close>). Parsing itself is \<^verbatim>\<open>argparse\<close>'s work and is not modelled.
\<close>

datatype output_format = Simple | Detailed | Python

record args =
  arg_string :: pystr
  arg_padding :: int
  arg_no_uppercase :: bool
  arg_format :: output_format

text \<open>
  What a run does: \<open>Printed ls\<close> writes the lines \<open>ls\<close> to standard output and
  exits with status 0; \<open>Failed e\<close> is the \<^verbatim>\<open>except\<close> branch, which writes
  \<^verbatim>\<open>Error: \<close> and the message of \<open>e\<close> to standard error and exits with status 1.
  Standard output is taken to be UTF-8, so printing a string that was encoded
  successfully does not fail.
\<close>

datatype outcome = Printed "pystr list" | Failed py_error

definition squote :: char where
  "squote = CHR 0x27"

definition dquote :: char where
  "dquote = CHR 0x22"

text \<open>
  The first line of the \<^verbatim>\<open>python\<close> format:
  \<^verbatim>\<open>print(f'{"\<close>, the input string, \<^verbatim>\<open>".encode().hex().upper():0\<close>, the padding in
  decimal, \<^verbatim>\<open>}')\<close>.
\<close>

definition python_snippet :: "pystr \<Rightarrow> int \<Rightarrow> pystr" where
  "python_snippet s p =
     ascii (''print(f'' @ [squote] @ ''{'' @ [dquote]) @ s
     @ ascii ([dquote] @ ''.encode().hex().upper():0'' @ str_of_int p @ ''}'' @ [squote] @ '')'')"

definition main :: "args \<Rightarrow> outcome" where
  "main a =
     (case string_to_hex (arg_string a) (arg_padding a) (\<not> arg_no_uppercase a) of
        Inl e \<Rightarrow> Failed e
      | Inr result \<Rightarrow>
          (case arg_format a of
             Simple \<Rightarrow> Printed [ascii result]
           | Detailed \<Rightarrow>
               Printed [ascii ''Input: '' @ arg_string a,
                        ascii (''Hex: '' @ result),
                        ascii (''Length: '' @ str_of_int (int (length result)))]
           | Python \<Rightarrow>
               Printed [python_snippet (arg_string a) (arg_padding a),
                        ascii (''# Result: '' @ result)]))"

section \<open>The inverse operations named by the round-trip property\<close>

text \<open>
  The script itself never decodes. The round-trip property speaks of decoding hex
  text to bytes (\<^verbatim>\<open>bytes.fromhex\<close>) and bytes to text (\<^verbatim>\<open>bytes.decode()\<close>, strict
  UTF-8); both are defined here, independently of the encoders above.
\<close>

definition hex_digit_value :: "char \<Rightarrow> nat option" where
  "hex_digit_value c =
     (let k = (of_char c :: nat) in
      if 48 \<le> k \<and> k \<le> 57 then Some (k - 48)
      else if 97 \<le> k \<and> k \<le> 102 then Some (k - 87)
      else if 65 \<le> k \<and> k \<le> 70 then Some (k - 55)
      else None)"

fun fromhex :: "string \<Rightarrow> pybytes option" where
  "fromhex [] = Some []"
| "fromhex [c] = None"
| "fromhex (c1 # c2 # cs) =
     (case (hex_digit_value c1, hex_digit_value c2, fromhex cs) of
        (Some hi, Some lo, Some bs) \<Rightarrow> Some (of_nat (16 * hi + lo) # bs)
      | _ \<Rightarrow> None)"

definition is_continuation :: "byte \<Rightarrow> bool" where
  "is_continuation b = (0x80 \<le> unat b \<and> unat b < 0xC0)"

definition continuation_bits :: "byte \<Rightarrow> nat" where
  "continuation_bits b = unat b - 0x80"

text \<open>
  Strict UTF-8: a lead byte fixes the length of the sequence, every further byte is
  a continuation byte, and overlong forms, surrogates and values above
  \<open>0x10FFFF\<close> are rejected.
\<close>

fun decode :: "pybytes \<Rightarrow> pystr option" where
  "decode [] = Some []"
| "decode (b # bs) =
     (let n = unat b in
      if n < 0x80 then map_option (Cons n) (decode bs)
      else if n < 0xC0 then None
      else if n < 0xE0 then
        (case bs of
           b1 # r \<Rightarrow>
             (let c = (n - 0xC0) * 64 + continuation_bits b1 in
              if is_continuation b1 \<and> 0x80 \<le> c
              then map_option (Cons c) (decode r) else None)
         | _ \<Rightarrow> None)
      else if n < 0xF0 then
        (case bs of
           b1 # b2 # r \<Rightarrow>
             (let c = (n - 0xE0) * 4096 + continuation_bits b1 * 64 + continuation_bits b2 in
              if is_continuation b1 \<and> is_continuation b2 \<and> 0x800 \<le> c \<and> \<not> is_surrogate c
              then map_option (Cons c) (decode r) else None)
         | _ \<Rightarrow> None)
      else if n < 0xF8 then
        (case bs of
           b1 # b2 # b3 # r \<Rightarrow>
             (let c = (n - 0xF0) * 262144 + continuation_bits b1 * 4096
                      + continuation_bits b2 * 64 + continuation_bits b3 in
              if is_continuation b1 \<and> is_continuation b2 \<and> is_continuation b3
                 \<and> 0x10000 \<le> c \<and> c < 0x110000
              then map_option (Cons c) (decode r) else None)
         | _ \<Rightarrow> None)
      else None)"

section \<open>The value of the printed snippet\<close>

text \<open>
  The \<^verbatim>\<open>python\<close> format prints the source text of an expression,
  \<^verbatim>\<open>f'{"<string>".encode().hex().upper():0<padding>}'\<close>. For a string that the
  literal \<^verbatim>\<open>"<string>"\<close> denotes as it is (no quote, backslash or line break in it)
  and a padding \<open>p \<ge> 0\<close>, the format specification \<^verbatim>\<open>0<p>\<close> asks for the text,
  left-aligned, filled with \<^verbatim>\<open>0\<close> to the width \<open>p\<close>; a text longer than the width is
  kept whole. \<open>snippet_value\<close> is what that expression computes. The expression has
  \<^verbatim>\<open>.upper()\<close> in it whatever the arguments are.
\<close>

definition format_zero_width :: "string \<Rightarrow> int \<Rightarrow> string" where
  "format_zero_width x width = x @ replicate (nat width - length x) CHR ''0''"

definition snippet_value :: "pystr \<Rightarrow> int \<Rightarrow> py_error + string" where
  "snippet_value s p =
     (case encode s of
        Inl e \<Rightarrow> Inl e
      | Inr bs \<Rightarrow> Inr (format_zero_width (upper (hex bs)) p))"

section \<open>Character classes\<close>

definition is_upper_hex_char :: "char \<Rightarrow> bool" where
  "is_upper_hex_char c =
     ((48 \<le> (of_char c :: nat) \<and> (of_char c :: nat) \<le> 57) \<or>
      (65 \<le> (of_char c :: nat) \<and> (of_char c :: nat) \<le> 70))"

section \<open>Facts about the built-in operations\<close>

lemma lt16_cases:
  "n < 16 \<Longrightarrow> n \<in> {0, 1, 2, 3, 4, 5, 6, 7, 8, 9, 10, 11, 12, 13, 14, 15::nat}"
  by simp arith

lemma hexdigit_code:
  assumes "n < 16"
  shows "of_char (hexdigit n) = (if n < 10 then 48 + n else 87 + n)"
proof -
  from assms have "n \<in> {0, 1, 2, 3, 4, 5, 6, 7, 8, 9, 10, 11, 12, 13, 14, 15::nat}"
    by (rule lt16_cases)
  then show ?thesis
    unfolding hexdigit_def by (elim insertE emptyE) simp_all
qed

lemma of_char_upper_char:
  "(of_char (upper_char c) :: nat) =
     (if 97 \<le> (of_char c :: nat) \<and> (of_char c :: nat) \<le> 122
      then of_char c - 32 else of_char c)"
  by (auto simp: upper_char_def)

lemma hexdigit_upper_code:
  assumes "n < 16"
  shows "(of_char (upper_char (hexdigit n)) :: nat) = (if n < 10 then 48 + n else 55 + n)"
  using assms by (simp add: of_char_upper_char hexdigit_code)

lemma unat_byte_less: "unat (b :: byte) < 256"
  using unsigned_less [of b, where 'a = nat] by simp

lemma unat_div16: "unat (b :: byte) div 16 < 16"
  using unat_byte_less [of b] by simp

lemma unat_of_nat_byte: "n < 256 \<Longrightarrow> unat (of_nat n :: byte) = n"
  by (simp add: unat_of_nat)

lemma hex_Cons: "hex (b # bs) = hex_byte b @ hex bs"
  by (simp add: hex_def)

lemma hex_append: "hex (xs @ ys) = hex xs @ hex ys"
  by (simp add: hex_def)

lemma length_hex: "length (hex bs) = 2 * length bs"
  by (induction bs) (simp_all add: hex_def hex_byte_def)

lemma length_upper: "length (upper s) = length s"
  by (simp add: upper_def)

lemma upper_append: "upper (xs @ ys) = upper xs @ upper ys"
  by (simp add: upper_def)

lemma upper_zeros: "upper (replicate k CHR ''0'') = replicate k CHR ''0''"
  by (simp add: upper_def upper_char_def)

lemma concat_replicate_single: "concat (replicate k [x]) = replicate k x"
  by (induction k) simp_all

lemma str_mul_zero:
  "index_sized n \<Longrightarrow> str_mul ''0'' n = Inr (replicate (nat n) CHR ''0'')"
  by (simp add: str_mul_def concat_replicate_single)

lemma str_mul_overflow: "\<not> index_sized n \<Longrightarrow> str_mul s n = Inl OverflowError"
  by (simp add: str_mul_def)

lemma upper_hexdigit_ok: "n < 16 \<Longrightarrow> is_upper_hex_char (upper_char (hexdigit n))"
  by (simp add: is_upper_hex_char_def hexdigit_upper_code)

lemma upper_hex_byte_ok: "c \<in> set (upper (hex_byte b)) \<Longrightarrow> is_upper_hex_char c"
  using unat_div16 [of b] by (auto simp: upper_def hex_byte_def upper_hexdigit_ok)

lemma upper_hex_ok: "c \<in> set (upper (hex bs)) \<Longrightarrow> is_upper_hex_char c"
proof (induction bs)
  case Nil
  then show ?case by (simp add: hex_def upper_def)
next
  case (Cons b bs)
  then show ?case by (auto simp: hex_Cons upper_append dest: upper_hex_byte_ok)
qed

lemma upper_hex_char_not_lower: "is_upper_hex_char c \<Longrightarrow> c \<notin> set ''abcdef''"
  by (auto simp: is_upper_hex_char_def)

section \<open>The shape of the result\<close>

text \<open>
  With \<open>bs\<close> the UTF-8 bytes of the input, the number of padding characters asked
  for is \<open>padding - 2 * length bs\<close>. When it fits the index type, the result is the
  hex text in the chosen case followed by that many zero characters (none when it is
  not positive); when it does not, the call raises \<^verbatim>\<open>OverflowError\<close>. The only
  other error is the encoder's.
\<close>

lemma string_to_hex_Inr:
  assumes "encode s = Inr bs" and "index_sized (padding - 2 * int (length bs))"
  shows "string_to_hex s padding uppercase =
           Inr ((if uppercase then upper (hex bs) else hex bs)
                @ replicate (nat (padding - 2 * int (length bs))) CHR ''0'')"
  using assms
  by (simp add: string_to_hex_def Let_def str_mul_zero length_hex length_upper)

lemma string_to_hex_overflow:
  assumes "encode s = Inr bs" and "\<not> index_sized (padding - 2 * int (length bs))"
  shows "string_to_hex s padding uppercase = Inl OverflowError"
  using assms
  by (simp add: string_to_hex_def Let_def str_mul_overflow length_hex length_upper)

lemma string_to_hex_encode_error:
  assumes "encode s = Inl e"
  shows "string_to_hex s padding uppercase = Inl e"
  using assms by (simp add: string_to_hex_def)

lemma string_to_hex_InrD:
  assumes "string_to_hex s padding uppercase = Inr out"
  obtains bs where "encode s = Inr bs" and "index_sized (padding - 2 * int (length bs))"
proof (cases "encode s")
  case (Inl e)
  with assms show ?thesis by (simp add: string_to_hex_encode_error)
next
  case (Inr bs)
  show ?thesis
  proof (cases "index_sized (padding - 2 * int (length bs))")
    case True
    with Inr show ?thesis by (rule that)
  next
    case False
    with Inr assms show ?thesis by (simp add: string_to_hex_overflow)
  qed
qed

lemma string_to_hex_returns_iff:
  "(\<exists>out. string_to_hex s padding uppercase = Inr out)
     \<longleftrightarrow> (\<exists>bs. encode s = Inr bs \<and> index_sized (padding - 2 * int (length bs)))"
  by (metis string_to_hex_Inr string_to_hex_InrD)

text \<open>Evaluation at concrete inputs, by unfolding the definitions.\<close>

lemmas encode_eval = encode_def ascii_def is_surrogate_def encode_codepoint_def

lemmas hex_eval = hex_def hex_byte_def hexdigit_def upper_def upper_char_def
  char_of_eq_iff take_bit_eq_mod

lemma zeros_1: "replicate 1 CHR ''0'' = ''0''"
  by simp

lemma zeros_2: "replicate 2 CHR ''0'' = ''00''"
  by (simp add: numeral_eq_Suc)

lemma zeros_10: "replicate 10 CHR ''0'' = ''0000000000''"
  by (simp add: numeral_eq_Suc)

lemma zeros_24: "replicate 24 CHR ''0'' = ''000000000000000000000000''"
  by (simp add: numeral_eq_Suc)

lemma encode_J: "encode (ascii ''J'') = Inr [0x4A]"
  by (simp add: encode_eval)

lemma encode_euro: "encode [0x20AC] = Inr [0xE2, 0x82, 0xAC]"
  by (simp add: encode_eval)

lemma encode_usdc:
  "encode (ascii ''USDC.axl'') = Inr [0x55, 0x53, 0x44, 0x43, 0x2E, 0x61, 0x78, 0x6C]"
  by (simp add: encode_eval)

lemma encode_hello:
  "encode (ascii ''Hello World'')
     = Inr [0x48, 0x65, 0x6C, 0x6C, 0x6F, 0x20, 0x57, 0x6F, 0x72, 0x6C, 0x64]"
  by (simp add: encode_eval)

lemma hex_J: "hex [0x4A] = ''4a''"
  by (simp add: hex_eval)

lemma upper_hex_J: "upper (hex [0x4A]) = ''4A''"
  by (simp add: hex_eval)

lemma hex_euro: "hex [0xE2, 0x82, 0xAC] = ''e282ac''"
  by (simp add: hex_eval)

lemma upper_hex_usdc:
  "upper (hex [0x55, 0x53, 0x44, 0x43, 0x2E, 0x61, 0x78, 0x6C]) = ''555344432E61786C''"
  by (simp add: hex_eval)

lemma hex_hello:
  "hex [0x48, 0x65, 0x6C, 0x6C, 0x6F, 0x20, 0x57, 0x6F, 0x72, 0x6C, 0x64]
     = ''48656c6c6f20576f726c64''"
  by (simp add: hex_eval)

lemma string_to_hex_J_3: "string_to_hex (ascii ''J'') 3 True = Inr ''4A0''"
  by (simp add: string_to_hex_Inr [OF encode_J] index_sized_def upper_hex_J zeros_1)

lemma string_to_hex_J_4: "string_to_hex (ascii ''J'') 4 True = Inr ''4A00''"
  by (simp add: string_to_hex_Inr [OF encode_J] index_sized_def upper_hex_J zeros_2)

lemma string_to_hex_hello_32:
  "string_to_hex (ascii ''Hello World'') 32 False = Inr ''48656c6c6f20576f726c640000000000''"
  by (simp add: string_to_hex_Inr [OF encode_hello] index_sized_def hex_hello zeros_10)

section \<open>Decoding inverts encoding\<close>



lemma hex_digit_value_hexdigit: "n < 16 \<Longrightarrow> hex_digit_value (hexdigit n) = Some n"
  by (simp add: hex_digit_value_def hexdigit_code)

lemma hex_digit_value_upper_hexdigit:
  "n < 16 \<Longrightarrow> hex_digit_value (upper_char (hexdigit n)) = Some n"
  by (simp add: hex_digit_value_def hexdigit_upper_code)

lemma byte_of_nibbles: "(of_nat (16 * (unat b div 16) + unat b mod 16) :: byte) = b"
  by simp

lemma fromhex_hex_byte:
  "fromhex (hex_byte b @ cs) = map_option (Cons b) (fromhex cs)"
  using unat_div16 [of b]
  by (cases "fromhex cs") (simp_all add: hex_byte_def hex_digit_value_hexdigit byte_of_nibbles)

lemma fromhex_upper_hex_byte:
  "fromhex (upper (hex_byte b) @ cs) = map_option (Cons b) (fromhex cs)"
  using unat_div16 [of b]
  by (cases "fromhex cs")
     (simp_all add: hex_byte_def upper_def hex_digit_value_upper_hexdigit byte_of_nibbles)

lemma fromhex_hex: "fromhex (hex bs) = Some bs"
  by (induction bs) (simp_all add: hex_def fromhex_hex_byte)

lemma fromhex_upper_hex: "fromhex (upper (hex bs)) = Some bs"
proof (induction bs)
  case Nil
  then show ?case by (simp add: hex_def upper_def)
next
  case (Cons b bs)
  then show ?case by (simp add: hex_Cons upper_append fromhex_upper_hex_byte)
qed



lemma split3: "c div 4096 * 4096 + c div 64 mod 64 * 64 + c mod 64 = (c::nat)"
proof -
  have "c mod (64 * 64) = 64 * (c div 64 mod 64) + c mod 64"
    by (rule mod_mult2_eq)
  then have "c mod 4096 = c div 64 mod 64 * 64 + c mod 64"
    by simp
  moreover have "c div 4096 * 4096 + c mod 4096 = c"
    by simp
  ultimately show ?thesis by simp
qed

lemma split4:
  "c div 262144 * 262144 + c div 4096 mod 64 * 4096 + c div 64 mod 64 * 64 + c mod 64 = (c::nat)"
proof -
  have "c mod (4096 * 64) = 4096 * (c div 4096 mod 64) + c mod 4096"
    by (rule mod_mult2_eq)
  then have "c mod 262144 = c div 4096 mod 64 * 4096 + c mod 4096"
    by simp
  moreover have "c mod (64 * 64) = 64 * (c div 64 mod 64) + c mod 64"
    by (rule mod_mult2_eq)
  then have "c mod 4096 = c div 64 mod 64 * 64 + c mod 64"
    by simp
  moreover have "c div 262144 * 262144 + c mod 262144 = c"
    by simp
  ultimately show ?thesis by simp
qed


lemma decode_1:
  assumes "unat b0 = n0" and "n0 < 0x80"
  shows "decode (b0 # rest) = map_option (Cons n0) (decode rest)"
  using assms by simp

lemma decode_2:
  assumes "unat b0 = 0xC0 + h" and "h < 32"
    and "unat b1 = 0x80 + l" and "l < 64"
    and "0x80 \<le> h * 64 + l"
  shows "decode (b0 # b1 # rest) = map_option (Cons (h * 64 + l)) (decode rest)"
  using assms by (simp add: is_continuation_def continuation_bits_def)

lemma decode_3:
  assumes "unat b0 = 0xE0 + h" and "h < 16"
    and "unat b1 = 0x80 + m" and "m < 64"
    and "unat b2 = 0x80 + l" and "l < 64"
    and "0x800 \<le> h * 4096 + m * 64 + l" and "\<not> is_surrogate (h * 4096 + m * 64 + l)"
  shows "decode (b0 # b1 # b2 # rest) = map_option (Cons (h * 4096 + m * 64 + l)) (decode rest)"
  using assms by (simp add: is_continuation_def continuation_bits_def)

lemma decode_4:
  assumes "unat b0 = 0xF0 + h" and "h < 8"
    and "unat b1 = 0x80 + k" and "k < 64"
    and "unat b2 = 0x80 + m" and "m < 64"
    and "unat b3 = 0x80 + l" and "l < 64"
    and "0x10000 \<le> h * 262144 + k * 4096 + m * 64 + l"
    and "h * 262144 + k * 4096 + m * 64 + l < 0x110000"
  shows "decode (b0 # b1 # b2 # b3 # rest)
           = map_option (Cons (h * 262144 + k * 4096 + m * 64 + l)) (decode rest)"
  using assms by (simp add: is_continuation_def continuation_bits_def)

lemma decode_encode_1:
  assumes "c < 0x80"
  shows "decode (encode_codepoint c @ rest) = map_option (Cons c) (decode rest)"
proof -
  have enc: "encode_codepoint c = [of_nat c]"
    using assms by (simp add: encode_codepoint_def)
  have u0: "unat (of_nat c :: byte) = c"
    using assms by (intro unat_of_nat_byte) simp
  show ?thesis
    unfolding enc using decode_1 [OF u0 assms, of rest] by simp
qed

lemma decode_encode_2:
  assumes "0x80 \<le> c" and "c < 0x800"
  shows "decode (encode_codepoint c @ rest) = map_option (Cons c) (decode rest)"
proof -
  define b0 :: byte where "b0 = of_nat (0xC0 + c div 64)"
  define b1 :: byte where "b1 = of_nat (0x80 + c mod 64)"
  have enc: "encode_codepoint c = [b0, b1]"
    using assms by (simp add: encode_codepoint_def b0_def b1_def)
  have h: "c div 64 < 32" using assms by simp
  have l: "c mod 64 < 64" by simp
  have u0: "unat b0 = 0xC0 + c div 64"
    unfolding b0_def using h by (intro unat_of_nat_byte) simp
  have u1: "unat b1 = 0x80 + c mod 64"
    unfolding b1_def by (intro unat_of_nat_byte) simp
  have val: "c div 64 * 64 + c mod 64 = c" by simp
  have lo: "0x80 \<le> c div 64 * 64 + c mod 64"
    unfolding val by (rule assms(1))
  show ?thesis
    unfolding enc using decode_2 [OF u0 h u1 l lo, of rest] by (simp only: val append.simps)
qed

lemma decode_encode_3:
  assumes "0x800 \<le> c" and "c < 0x10000" and "\<not> is_surrogate c"
  shows "decode (encode_codepoint c @ rest) = map_option (Cons c) (decode rest)"
proof -
  define b0 :: byte where "b0 = of_nat (0xE0 + c div 4096)"
  define b1 :: byte where "b1 = of_nat (0x80 + c div 64 mod 64)"
  define b2 :: byte where "b2 = of_nat (0x80 + c mod 64)"
  have enc: "encode_codepoint c = [b0, b1, b2]"
    using assms(1,2) by (simp add: encode_codepoint_def b0_def b1_def b2_def)
  have h: "c div 4096 < 16" using assms(2) by simp
  have m: "c div 64 mod 64 < 64" by simp
  have l: "c mod 64 < 64" by simp
  have u0: "unat b0 = 0xE0 + c div 4096"
    unfolding b0_def using h by (intro unat_of_nat_byte) simp
  have u1: "unat b1 = 0x80 + c div 64 mod 64"
    unfolding b1_def by (intro unat_of_nat_byte) simp
  have u2: "unat b2 = 0x80 + c mod 64"
    unfolding b2_def by (intro unat_of_nat_byte) simp
  note val = split3 [of c]
  have lo: "0x800 \<le> c div 4096 * 4096 + c div 64 mod 64 * 64 + c mod 64"
    unfolding val by (rule assms(1))
  have ns: "\<not> is_surrogate (c div 4096 * 4096 + c div 64 mod 64 * 64 + c mod 64)"
    unfolding val by (rule assms(3))
  show ?thesis
    unfolding enc using decode_3 [OF u0 h u1 m u2 l lo ns, of rest]
    by (simp only: val append.simps)
qed

lemma decode_encode_4:
  assumes "0x10000 \<le> c" and "c < 0x110000"
  shows "decode (encode_codepoint c @ rest) = map_option (Cons c) (decode rest)"
proof -
  define b0 :: byte where "b0 = of_nat (0xF0 + c div 262144)"
  define b1 :: byte where "b1 = of_nat (0x80 + c div 4096 mod 64)"
  define b2 :: byte where "b2 = of_nat (0x80 + c div 64 mod 64)"
  define b3 :: byte where "b3 = of_nat (0x80 + c mod 64)"
  have enc: "encode_codepoint c = [b0, b1, b2, b3]"
    using assms(1) by (simp add: encode_codepoint_def b0_def b1_def b2_def b3_def)
  have h: "c div 262144 < 8" using assms(2) by simp
  have k: "c div 4096 mod 64 < 64" by simp
  have m: "c div 64 mod 64 < 64" by simp
  have l: "c mod 64 < 64" by simp
  have u0: "unat b0 = 0xF0 + c div 262144"
    unfolding b0_def using h by (intro unat_of_nat_byte) simp
  have u1: "unat b1 = 0x80 + c div 4096 mod 64"
    unfolding b1_def by (intro unat_of_nat_byte) simp
  have u2: "unat b2 = 0x80 + c div 64 mod 64"
    unfolding b2_def by (intro unat_of_nat_byte) simp
  have u3: "unat b3 = 0x80 + c mod 64"
    unfolding b3_def by (intro unat_of_nat_byte) simp
  note val = split4 [of c]
  have lo: "0x10000 \<le> c div 262144 * 262144 + c div 4096 mod 64 * 4096 + c div 64 mod 64 * 64 + c mod 64"
    unfolding val by (rule assms(1))
  have hi: "c div 262144 * 262144 + c div 4096 mod 64 * 4096 + c div 64 mod 64 * 64 + c mod 64 < 0x110000"
    unfolding val by (rule assms(2))
  show ?thesis
    unfolding enc using decode_4 [OF u0 h u1 k u2 m u3 l lo hi, of rest]
    by (simp only: val append.simps)
qed

lemma decode_encode_codepoint:
  assumes "is_codepoint c" and "\<not> is_surrogate c"
  shows "decode (encode_codepoint c @ rest) = map_option (Cons c) (decode rest)"
proof -
  have top: "c < 0x110000"
    using assms(1) by (simp add: is_codepoint_def)
  show ?thesis
  proof (cases "c < 0x80")
    case True
    then show ?thesis by (rule decode_encode_1)
  next
    case a: False
    show ?thesis
    proof (cases "c < 0x800")
      case True
      with a show ?thesis by (intro decode_encode_2) simp_all
    next
      case b: False
      show ?thesis
      proof (cases "c < 0x10000")
        case True
        with b assms(2) show ?thesis by (intro decode_encode_3) simp_all
      next
        case False
        with top show ?thesis by (intro decode_encode_4) simp_all
      qed
    qed
  qed
qed

lemma decode_encode_from:
  assumes "is_str s" and "encode_from pos s = Inr bs"
  shows "decode bs = Some s"
  using assms
proof (induction s arbitrary: pos bs)
  case Nil
  then show ?case by simp
next
  case (Cons c cs)
  from Cons.prems(2) have ns: "\<not> is_surrogate c"
    by (auto split: if_splits)
  with Cons.prems(2) obtain bs' where tl: "encode_from (Suc pos) cs = Inr bs'"
    and bs: "bs = encode_codepoint c @ bs'"
    by (auto split: sum.splits)
  from Cons.prems(1) have cp: "is_codepoint c" and str: "is_str cs"
    by (simp_all add: is_str_def)
  have "decode bs' = Some cs"
    using str tl by (rule Cons.IH)
  then show ?case
    unfolding bs by (simp only: decode_encode_codepoint [OF cp ns] option.map)
qed

lemma decode_encode:
  assumes "is_str s" and "encode s = Inr bs"
  shows "decode bs = Some s"
  using assms unfolding encode_def by (rule decode_encode_from)

section \<open>Further evaluations\<close>

lemma is_str_euro: "is_str [0x20AC]"
  by (simp add: is_str_def is_codepoint_def)

lemma string_to_hex_euro_8: "string_to_hex [0x20AC] 8 True = Inr ''E282AC00''"
  by (simp add: string_to_hex_Inr [OF encode_euro] index_sized_def hex_eval zeros_2)

lemma zeros_38: "replicate 38 CHR ''0'' = ''00000000000000000000000000000000000000''"
  by (simp add: numeral_eq_Suc)

lemma str_of_int_40: "str_of_int 40 = ''40''"
  by (simp add: str_of_int_def char_of_eq_iff take_bit_eq_mod)

lemma string_to_hex_J_40_lower:
  "string_to_hex (ascii ''J'') 40 False = Inr ''4a00000000000000000000000000000000000000''"
  by (simp add: string_to_hex_Inr [OF encode_J] index_sized_def hex_J zeros_38)

lemma string_to_hex_J_overflow:
  "string_to_hex (ascii ''J'') (- 9223372036854775807) True = Inl OverflowError"
  by (simp add: string_to_hex_overflow [OF encode_J] index_sized_def)

lemma string_to_hex_result:
  assumes "encode s = Inr bs" and "string_to_hex s padding uppercase = Inr out"
  shows "index_sized (padding - 2 * int (length bs))"
    and "out = (if uppercase then upper (hex bs) else hex bs)
               @ replicate (nat (padding - 2 * int (length bs))) CHR ''0''"
proof -
  from assms(2) obtain bs' where "encode s = Inr bs'"
    and "index_sized (padding - 2 * int (length bs'))"
    by (rule string_to_hex_InrD)
  with assms(1) show idx: "index_sized (padding - 2 * int (length bs))"
    by simp
  show "out = (if uppercase then upper (hex bs) else hex bs)
               @ replicate (nat (padding - 2 * int (length bs))) CHR ''0''"
    using assms(2) by (simp add: string_to_hex_Inr [OF assms(1) idx])
qed

section \<open>Claims\<close>

text \<open>
  C1. For every input string with UTF-8 bytes \<open>bs\<close>, every integer padding and
  either case flag, the string that \<open>string_to_hex\<close> returns has as its first
  \<open>2 * length bs\<close> characters the hex text of \<open>bs\<close>, upper-cased as a whole when
  \<open>uppercase\<close> is set, and every character after them is \<open>0\<close>: padding is only
  appended, never put in front and never in place of a hex character.
\<close>

theorem string_to_hex_hex_prefix_zero_suffix:
  assumes "encode s = Inr bs" and "string_to_hex s padding uppercase = Inr out"
  shows "take (2 * length bs) out = (if uppercase then upper (hex bs) else hex bs)
         \<and> (\<forall>c \<in> set (drop (2 * length bs) out). c = CHR ''0'')"
  unfolding string_to_hex_result(2) [OF assms]
  by (simp add: length_hex length_upper)

theorem string_to_hex_hex_prefix_zero_suffix_witness:
  "encode (ascii ''J'') = Inr [0x4A] \<and> string_to_hex (ascii ''J'') 4 True = Inr ''4A00''
   \<and> take (2 * length [0x4A :: byte]) ''4A00''
       = (if True then upper (hex [0x4A]) else hex [0x4A])
   \<and> set (drop (2 * length [0x4A :: byte]) ''4A00'') \<subseteq> {CHR ''0''}"
  using encode_J string_to_hex_J_4
    string_to_hex_hex_prefix_zero_suffix [OF encode_J string_to_hex_J_4]
  by blast

text \<open>
  C2. For every string with UTF-8 bytes \<open>bs\<close> and every padding \<open>\<ge> 0\<close> whose
  number of padding characters fits the index type, the upper-case call returns, and
  the length of its result is \<open>max (2 * length bs) padding\<close>.
\<close>

theorem string_to_hex_length_max:
  assumes "encode s = Inr bs" and "0 \<le> padding"
    and "index_sized (padding - 2 * int (length bs))"
  shows "\<exists>out. string_to_hex s padding True = Inr out
           \<and> int (length out) = max (2 * int (length bs)) padding"
  using assms(2)
  by (simp add: string_to_hex_Inr [OF assms(1) assms(3)] length_hex length_upper)

theorem string_to_hex_length_max_witness:
  "encode (ascii ''J'') = Inr [0x4A] \<and> (0::int) \<le> 4
   \<and> index_sized (4 - 2 * int (length [0x4A :: byte]))
   \<and> (\<exists>out. string_to_hex (ascii ''J'') 4 True = Inr out
      \<and> int (length out) = max (2 * int (length [0x4A :: byte])) 4)"
proof -
  have p: "(0::int) \<le> 4" by simp
  have i: "index_sized (4 - 2 * int (length [0x4A :: byte]))"
    by (simp add: index_sized_def)
  show ?thesis
    using encode_J p i string_to_hex_length_max [OF encode_J p i] by blast
qed

text \<open>
  C3, as amended. For every string with UTF-8 bytes \<open>bs\<close>, either case flag, and
  every integer padding (zero and negative ones too) with
  \<open>2 * length bs - 2 ^ 63 \<le> padding \<le> 2 * length bs\<close>, the call raises nothing and
  returns the bare hex text: nothing is appended, nothing is cut off, so the result
  is at least as long as the padding asked for.
\<close>

theorem string_to_hex_padding_is_floor:
  assumes "encode s = Inr bs" and "2 * int (length bs) - 2 ^ 63 \<le> padding"
    and "padding \<le> 2 * int (length bs)"
  shows "string_to_hex s padding uppercase
           = Inr (if uppercase then upper (hex bs) else hex bs)
         \<and> padding \<le> int (length (if uppercase then upper (hex bs) else hex bs))"
proof -
  have idx: "index_sized (padding - 2 * int (length bs))"
    using assms(2,3) by (simp add: index_sized_def)
  show ?thesis
    using assms(3) by (simp add: string_to_hex_Inr [OF assms(1) idx] length_hex length_upper)
qed

theorem string_to_hex_padding_is_floor_witness:
  "encode [0x20AC] = Inr [0xE2, 0x82, 0xAC]
   \<and> 2 * int (length [0xE2, 0x82, 0xAC :: byte]) - 2 ^ 63 \<le> (-5 :: int)
   \<and> (-5 :: int) \<le> 2 * int (length [0xE2, 0x82, 0xAC :: byte])
   \<and> string_to_hex [0x20AC] (-5) False
     = Inr (if False then upper (hex [0xE2, 0x82, 0xAC]) else hex [0xE2, 0x82, 0xAC])
   \<and> (-5 :: int) \<le> int (length (if False then upper (hex [0xE2, 0x82, 0xAC]) else hex [0xE2, 0x82, 0xAC]))"
proof -
  have lo: "2 * int (length [0xE2, 0x82, 0xAC :: byte]) - 2 ^ 63 \<le> (-5 :: int)" by simp
  have hi: "(-5 :: int) \<le> 2 * int (length [0xE2, 0x82, 0xAC :: byte])" by simp
  show ?thesis
    using encode_euro lo hi string_to_hex_padding_is_floor [OF encode_euro lo hi, of False]
    by blast
qed

text \<open>
  C3 as first stated, for every padding \<open>\<le> 2 * length bs\<close>, is refuted: for the
  input \<^verbatim>\<open>J\<close> (one byte, two hex characters) and the padding \<open>- (2 ^ 63 - 1)\<close>
  the number of padding characters is \<open>- 2 ^ 63 - 1\<close>, and the call raises
  \<^verbatim>\<open>OverflowError\<close> instead of returning \<^verbatim>\<open>4A\<close>.
\<close>

theorem string_to_hex_padding_is_floor_counterexample:
  "encode (ascii ''J'') = Inr [0x4A]
   \<and> (- 9223372036854775807 :: int) \<le> 2 * int (length [0x4A :: byte])
   \<and> string_to_hex (ascii ''J'') (- 9223372036854775807) True = Inl OverflowError
   \<and> string_to_hex (ascii ''J'') (- 9223372036854775807) True
       \<noteq> Inr (if True then upper (hex [0x4A]) else hex [0x4A])"
  by (simp add: encode_J string_to_hex_J_overflow)

text \<open>
  C4. Round trip: for every Python string that encodes to the bytes \<open>bs\<close>, every
  padding and either case flag, the first \<open>2 * length bs\<close> characters of the result
  decode as hex to \<open>bs\<close>, and \<open>bs\<close> decodes as UTF-8 to the input string.
\<close>

theorem string_to_hex_roundtrip:
  assumes "is_str s" and "encode s = Inr bs" and "string_to_hex s p uppercase = Inr out"
  shows "fromhex (take (2 * length bs) out) = Some bs \<and> decode bs = Some s"
proof -
  note out = string_to_hex_result(2) [OF assms(2,3)]
  have "take (2 * length bs) out = (if uppercase then upper (hex bs) else hex bs)"
    unfolding out by (simp add: length_hex length_upper)
  then have "fromhex (take (2 * length bs) out) = Some bs"
    by (simp add: fromhex_hex fromhex_upper_hex)
  moreover have "decode bs = Some s"
    using assms(1,2) by (rule decode_encode)
  ultimately show ?thesis by simp
qed

theorem string_to_hex_roundtrip_witness:
  "is_str [0x20AC] \<and> encode [0x20AC] = Inr [0xE2, 0x82, 0xAC]
   \<and> string_to_hex [0x20AC] 8 True = Inr ''E282AC00''
   \<and> fromhex (take (2 * length [0xE2, 0x82, 0xAC :: byte]) ''E282AC00'') = Some [0xE2, 0x82, 0xAC]
   \<and> decode [0xE2, 0x82, 0xAC] = Some [0x20AC]"
  using is_str_euro encode_euro string_to_hex_euro_8
    string_to_hex_roundtrip [OF is_str_euro encode_euro string_to_hex_euro_8]
  by blast

text \<open>
  C5. Case homomorphism: the upper-case result is the lower-case result upper-cased,
  over the whole output string (the zero padding does not change under \<open>upper\<close>);
  when the input does not encode, both calls raise the same error.
\<close>

theorem string_to_hex_upper_homomorphism:
  "string_to_hex s p True = map_sum id upper (string_to_hex s p False)"
proof (cases "encode s")
  case (Inl e)
  then show ?thesis by (simp add: string_to_hex_def)
next
  case (Inr bs)
  show ?thesis
  proof (cases "index_sized (p - 2 * int (length bs))")
    case True
    show ?thesis
      by (simp add: string_to_hex_Inr [OF Inr True] upper_append upper_zeros)
  next
    case False
    show ?thesis
      by (simp add: string_to_hex_overflow [OF Inr False])
  qed
qed

text \<open>
  C6. With \<open>uppercase\<close> set, no character of the result is one of \<open>a\<close> to \<open>f\<close>.
\<close>

theorem string_to_hex_upper_no_lowercase:
  assumes "string_to_hex s p True = Inr out" and "c \<in> set out"
  shows "c \<notin> set ''abcdef''"
proof -
  from assms(1) obtain bs where enc: "encode s = Inr bs"
    by (rule string_to_hex_InrD)
  have "out = upper (hex bs) @ replicate (nat (p - 2 * int (length bs))) CHR ''0''"
    using string_to_hex_result(2) [OF enc assms(1)] by simp
  with assms(2) have "c \<in> set (upper (hex bs)) \<or> c = CHR ''0''"
    by auto
  then show ?thesis
  proof
    assume "c \<in> set (upper (hex bs))"
    then show ?thesis by (intro upper_hex_char_not_lower upper_hex_ok)
  next
    assume "c = CHR ''0''"
    then show ?thesis by simp
  qed
qed

theorem string_to_hex_upper_no_lowercase_witness:
  "string_to_hex (ascii ''J'') 4 True = Inr ''4A00'' \<and> CHR ''A'' \<in> set ''4A00''
   \<and> CHR ''A'' \<notin> set ''abcdef''"
proof -
  have m: "CHR ''A'' \<in> set ''4A00''" by simp
  show ?thesis
    using string_to_hex_J_4 m string_to_hex_upper_no_lowercase [OF string_to_hex_J_4 m]
    by blast
qed

text \<open>
  C7. Worked scenario: \<^verbatim>\<open>string_to_hex("USDC.axl", 40, True)\<close> is the 16 hex
  characters \<^verbatim>\<open>555344432E61786C\<close> followed by 24 zeros, 40 characters in all.
\<close>

theorem string_to_hex_usdc_axl:
  "string_to_hex (ascii ''USDC.axl'') 40 True
     = Inr ''555344432E61786C000000000000000000000000''
   \<and> length ''555344432E61786C000000000000000000000000'' = 40
   \<and> ''555344432E61786C000000000000000000000000''
       = ''555344432E61786C'' @ replicate 24 CHR ''0''"
  by (simp add: string_to_hex_Inr [OF encode_usdc] index_sized_def upper_hex_usdc zeros_24)

text \<open>
  C8. Worked scenario: \<^verbatim>\<open>string_to_hex("Hello World", 32, False)\<close> is the 22
  lower-case hex characters \<^verbatim>\<open>48656c6c6f20576f726c64\<close> followed by 10 zeros, 32
  characters in all. The literal quoted for it, \<^verbatim>\<open>48656c6c6f20576f726c6400000000\<close>,
  has 30 characters (8 zeros) and is not what the function returns.
\<close>

theorem string_to_hex_hello_world:
  "string_to_hex (ascii ''Hello World'') 32 False
     = Inr ''48656c6c6f20576f726c640000000000''
   \<and> length ''48656c6c6f20576f726c640000000000'' = 32
   \<and> ''48656c6c6f20576f726c640000000000''
       = ''48656c6c6f20576f726c64'' @ replicate 10 CHR ''0''"
  by (simp add: string_to_hex_Inr [OF encode_hello] index_sized_def hex_hello zeros_10)

text \<open>
  The 30-character literal of C8 is refuted: the call does not return it.
\<close>

theorem string_to_hex_hello_world_literal_counterexample:
  "string_to_hex (ascii ''Hello World'') 32 False
     \<noteq> Inr ''48656c6c6f20576f726c6400000000''"
  by (simp add: string_to_hex_hello_32)

text \<open>
  C9. The \<^verbatim>\<open>python\<close> format prints an expression and the computed result. With
  \<^verbatim>\<open>--no-uppercase\<close> they differ: for the input \<^verbatim>\<open>J\<close> and padding 40 the printed
  expression still has \<^verbatim>\<open>.upper()\<close> in it and computes \<^verbatim>\<open>4A00...\<close>, while the
  \<^verbatim>\<open># Result:\<close> line shows \<^verbatim>\<open>4a00...\<close>.
\<close>

theorem main_python_no_uppercase_diverges:
  "main \<lparr>arg_string = ascii ''J'', arg_padding = 40, arg_no_uppercase = True,
         arg_format = Python\<rparr>
     = Printed
         [ascii (''print(f'' @ [squote] @ ''{'' @ [dquote] @ ''J'' @ [dquote]
                 @ ''.encode().hex().upper():040}'' @ [squote] @ '')''),
          ascii ''# Result: 4a00000000000000000000000000000000000000'']
   \<and> snippet_value (ascii ''J'') 40 = Inr ''4A00000000000000000000000000000000000000''
   \<and> ''4A00000000000000000000000000000000000000''
       \<noteq> ''4a00000000000000000000000000000000000000''"
proof -
  have "snippet_value (ascii ''J'') 40 = Inr ''4A00000000000000000000000000000000000000''"
    by (simp add: snippet_value_def encode_J upper_hex_J format_zero_width_def zeros_38)
  moreover have "python_snippet (ascii ''J'') 40
      = ascii (''print(f'' @ [squote] @ ''{'' @ [dquote] @ ''J'' @ [dquote]
                 @ ''.encode().hex().upper():040}'' @ [squote] @ '')'')"
    by (simp add: python_snippet_def str_of_int_40 ascii_def)
  ultimately show ?thesis
    by (simp add: main_def string_to_hex_J_40_lower)
qed

text \<open>
  C10. Prefix monotonicity in the padding: for \<open>p \<le> q\<close>, when the call for \<open>p\<close>
  returns and the number of padding characters for \<open>q\<close> fits the index type, the
  call for \<open>q\<close> returns too (same string, same case flag), the result for \<open>p\<close> is
  a prefix of the result for \<open>q\<close>, and so it is not longer.
\<close>

theorem string_to_hex_prefix_monotone:
  assumes "p \<le> q" and "string_to_hex s p uppercase = Inr a"
    and "encode s = Inr bs" and "q - 2 * int (length bs) < 2 ^ 63"
  shows "\<exists>b. string_to_hex s q uppercase = Inr b \<and> prefix a b \<and> length a \<le> length b"
proof -
  let ?h = "if uppercase then upper (hex bs) else hex bs"
  let ?k = "\<lambda>x. nat (x - 2 * int (length bs))"
  have idx_p: "index_sized (p - 2 * int (length bs))"
    using assms(3,2) by (rule string_to_hex_result(1))
  have a: "a = ?h @ replicate (?k p) CHR ''0''"
    using assms(3,2) by (rule string_to_hex_result(2))
  have idx_q: "index_sized (q - 2 * int (length bs))"
    using idx_p assms(1,4) by (simp add: index_sized_def)
  have le: "?k p \<le> ?k q" using assms(1) by simp
  then have "replicate (?k q) CHR ''0''
               = replicate (?k p) CHR ''0'' @ replicate (?k q - ?k p) CHR ''0''"
    by (simp flip: replicate_add)
  then have "prefix a (?h @ replicate (?k q) CHR ''0'')"
    unfolding a by (simp add: prefix_def)
  moreover have "length a \<le> length (?h @ replicate (?k q) CHR ''0'')"
    unfolding a using le by simp
  ultimately show ?thesis
    by (simp add: string_to_hex_Inr [OF assms(3) idx_q])
qed

theorem string_to_hex_prefix_monotone_witness:
  "(3::int) \<le> 4 \<and> string_to_hex (ascii ''J'') 3 True = Inr ''4A0''
   \<and> encode (ascii ''J'') = Inr [0x4A]
   \<and> (4::int) - 2 * int (length [0x4A :: byte]) < 2 ^ 63
   \<and> (\<exists>b. string_to_hex (ascii ''J'') 4 True = Inr b \<and> prefix ''4A0'' b
          \<and> length ''4A0'' \<le> length b)"
proof -
  have le: "(3::int) \<le> 4" by simp
  have up: "(4::int) - 2 * int (length [0x4A :: byte]) < 2 ^ 63" by simp
  show ?thesis
    using le string_to_hex_J_3 encode_J up
      string_to_hex_prefix_monotone [OF le string_to_hex_J_3 encode_J up]
    by blast
qed

end
